theory Spec2Isabelle
  imports Complex_Main "HOL-Library.Sublist" "HOL-Library.AList"
begin

section \<open>Python values used by the matching core\<close>

text \<open>
  Python strings are modelled as \<^typ>\<open>string\<close> restricted to ASCII: \<open>str.lower\<close> maps
  the letters \<open>A\<close> .. \<open>Z\<close> to \<open>a\<close> .. \<open>z\<close> and leaves every other character alone,
  and \<open>str.split()\<close> splits at runs of ASCII whitespace.  Python floats are modelled
  as \<^typ>\<open>real\<close> and Python integers as \<^typ>\<open>int\<close>.
\<close>

definition lower_char :: "char \<Rightarrow> char" where
  "lower_char c =
     (if (65::nat) \<le> of_char c \<and> of_char c \<le> (90::nat)
      then char_of (of_char c + (32::nat)) else c)"

definition str_lower :: "string \<Rightarrow> string" where
  "str_lower s = map lower_char s"

definition isspace :: "char \<Rightarrow> bool" where
  "isspace c =
     (let n = (of_char c :: nat)
      in (9 \<le> n \<and> n \<le> 13) \<or> (28 \<le> n \<and> n \<le> 32))"

text \<open>\<open>s.split()\<close>: the maximal runs of non-whitespace characters, in order.\<close>

fun split_ws :: "string \<Rightarrow> string \<Rightarrow> string list" where
  "split_ws w [] = (if w = [] then [] else [w])"
| "split_ws w (c # cs) =
     (if isspace c then (if w = [] then split_ws [] cs else w # split_ws [] cs)
      else split_ws (w @ [c]) cs)"

definition str_split :: "string \<Rightarrow> string list" where
  "str_split s = split_ws [] s"

text \<open>\<open>sep.join(xs)\<close>.\<close>

fun str_join :: "string \<Rightarrow> string list \<Rightarrow> string" where
  "str_join sep [] = []"
| "str_join sep [x] = x"
| "str_join sep (x # y # ys) = x @ sep @ str_join sep (y # ys)"

datatype error = IndexError | TypeError | ValueError string

text \<open>\<open>xs[i]\<close> for a Python integer \<open>i\<close>: a negative index counts from the end, an
  index outside \<open>-len(xs) .. len(xs) - 1\<close> raises \<open>IndexError\<close>.\<close>

definition py_index :: "'a list \<Rightarrow> int \<Rightarrow> error + 'a" where
  "py_index xs i =
     (if 0 \<le> i \<and> i < int (length xs) then Inr (xs ! nat i)
      else if - int (length xs) \<le> i \<and> i < 0 then Inr (xs ! nat (int (length xs) + i))
      else Inl IndexError)"

text \<open>\<open>range(a, b)\<close> and \<open>range(n)\<close>.\<close>

definition py_range2 :: "int \<Rightarrow> int \<Rightarrow> int list" where
  "py_range2 a b = [a..b - 1]"

definition py_range :: "int \<Rightarrow> int list" where
  "py_range n = py_range2 0 n"

text \<open>Sequencing of computations that may raise: the first error wins.\<close>

definition bind_err :: "error + 'a \<Rightarrow> ('a \<Rightarrow> error + 'b) \<Rightarrow> error + 'b" where
  "bind_err m f = (case m of Inl e \<Rightarrow> Inl e | Inr x \<Rightarrow> f x)"

text \<open>A list comprehension \<open>[f(x) for x in xs]\<close> whose body may raise.\<close>

fun comprehension :: "('a \<Rightarrow> error + 'b) \<Rightarrow> 'a list \<Rightarrow> error + 'b list" where
  "comprehension f [] = Inr []"
| "comprehension f (x # xs) =
     bind_err (f x) (\<lambda>y. bind_err (comprehension f xs) (\<lambda>ys. Inr (y # ys)))"

text \<open>A \<open>for\<close> loop over \<open>xs\<close> that updates a state and may raise.\<close>

fun for_loop :: "('s \<Rightarrow> 'a \<Rightarrow> error + 's) \<Rightarrow> 's \<Rightarrow> 'a list \<Rightarrow> error + 's" where
  "for_loop body s [] = Inr s"
| "for_loop body s (x # xs) = bind_err (body s x) (\<lambda>s'. for_loop body s' xs)"

section \<open>The similarity ratio\<close>

text \<open>
  Modelled from the spec: \<open>fuzz.ratio\<close> is imported from the external library
  \<open>rapidfuzz\<close>, whose source is not part of the repository.  The specification asks
  for the standard Levenshtein-ratio scoring scaled to \<open>[0,100]\<close>: the normalised
  insertion/deletion similarity \<open>100 * (1 - d / (len s1 + len s2))\<close>, where
  \<open>d = len s1 + len s2 - 2 * lcs s1 s2\<close> and two empty strings score \<open>100\<close>.
\<close>

fun lcs_len :: "'a list \<Rightarrow> 'a list \<Rightarrow> nat" where
  "lcs_len [] ys = 0"
| "lcs_len (x # xs) [] = 0"
| "lcs_len (x # xs) (y # ys) =
     (if x = y then Suc (lcs_len xs ys)
      else max (lcs_len (x # xs) ys) (lcs_len xs (y # ys)))"

definition indel_distance :: "string \<Rightarrow> string \<Rightarrow> nat" where
  "indel_distance s1 s2 = length s1 + length s2 - 2 * lcs_len s1 s2"

definition fuzz_ratio :: "string \<Rightarrow> string \<Rightarrow> real" where
  "fuzz_ratio s1 s2 =
     (let maximum = length s1 + length s2;
          norm_dist = (if maximum = 0 then 0
                       else real (indel_distance s1 s2) / real maximum)
      in (1 - norm_dist) * 100)"

section \<open>TextBound and MatchResult\<close>

record TextBound =
  "text" :: string
  x0 :: real
  y0 :: real
  x1 :: real
  y1 :: real
  page :: int

record MatchResult =
  text_bound :: TextBound
  confidence :: real
  "context" :: "string option"

text \<open>Values of the dictionaries that \<open>to_dict\<close> builds; a dictionary is an association
  list in insertion order.\<close>

datatype pyval =
  PNone | PFloat real | PInt int | PStr string | PDict "(string \<times> pyval) list"

definition TextBound_to_dict :: "TextBound \<Rightarrow> (string \<times> pyval) list" where
  "TextBound_to_dict tb =
     [(''text'', PStr (text tb)), (''x0'', PFloat (x0 tb)), (''y0'', PFloat (y0 tb)),
      (''x1'', PFloat (x1 tb)), (''y1'', PFloat (y1 tb)), (''page'', PInt (page tb))]"

text \<open>\<open>if self.context:\<close> holds when the context is neither \<open>None\<close> nor the empty string.\<close>

definition truthy :: "string option \<Rightarrow> bool" where
  "truthy c = (case c of None \<Rightarrow> False | Some s \<Rightarrow> s \<noteq> [])"

definition MatchResult_to_dict :: "MatchResult \<Rightarrow> (string \<times> pyval) list" where
  "MatchResult_to_dict r =
     (let result = [(''match'', PDict (TextBound_to_dict (text_bound r))),
                    (''confidence'', PFloat (confidence r))]
      in if truthy (context r)
         then AList.update ''context'' (PStr (the (context r))) result
         else result)"

section \<open>ExactMatchingStrategy\<close>

fun exact_loop :: "string \<Rightarrow> MatchResult list \<Rightarrow> TextBound list \<Rightarrow> MatchResult list" where
  "exact_loop entity_lower results [] = results"
| "exact_loop entity_lower results (tb # tbs) =
     exact_loop entity_lower
       (if str_lower (text tb) = entity_lower
        then results @ [\<lparr>text_bound = tb, confidence = 100, context = None\<rparr>]
        else results) tbs"

definition ExactMatchingStrategy_match :: "string \<Rightarrow> TextBound list \<Rightarrow> MatchResult list" where
  "ExactMatchingStrategy_match entity text_bounds =
     exact_loop (str_lower entity) [] text_bounds"

section \<open>FuzzyMatchingStrategy\<close>

fun fuzzy_loop :: "real \<Rightarrow> string \<Rightarrow> MatchResult list \<Rightarrow> TextBound list \<Rightarrow> MatchResult list" where
  "fuzzy_loop threshold entity results [] = results"
| "fuzzy_loop threshold entity results (tb # tbs) =
     (let confidence = fuzz_ratio (str_lower entity) (str_lower (text tb))
      in fuzzy_loop threshold entity
           (if confidence \<ge> threshold
            then results @ [\<lparr>text_bound = tb, confidence = confidence, context = None\<rparr>]
            else results) tbs)"

definition FuzzyMatchingStrategy_match :: "real \<Rightarrow> string \<Rightarrow> TextBound list \<Rightarrow> MatchResult list" where
  "FuzzyMatchingStrategy_match threshold entity text_bounds =
     fuzzy_loop threshold entity [] text_bounds"

section \<open>ContextualMatchingStrategy\<close>

text \<open>\<open>page_groups\<close> is a dictionary from page numbers to lists of
  \<open>(idx, text_bound)\<close> pairs; its iteration order is the order in which the keys were
  inserted, so it is an association list.  One step of the grouping loop inserts the
  key with an empty list when it is new and then appends the pair to the key's list.\<close>

type_synonym page_groups = "(int \<times> (nat \<times> TextBound) list) list"

definition group_step :: "page_groups \<Rightarrow> nat \<times> TextBound \<Rightarrow> page_groups" where
  "group_step page_groups it =
     (let p = page (snd it);
          page_groups' = (if map_of page_groups p = None
                          then AList.update p [] page_groups else page_groups)
      in AList.map_entry p (\<lambda>l. l @ [it]) page_groups')"

definition build_page_groups :: "TextBound list \<Rightarrow> page_groups" where
  "build_page_groups text_bounds = foldl group_step [] (enumerate 0 text_bounds)"

text \<open>The body of the inner loop, for the window that starts at index \<open>i\<close> of the
  page's \<open>bounds_list\<close>; \<open>results\<close> is the list built so far.\<close>

definition window_body ::
  "int \<Rightarrow> real \<Rightarrow> string \<Rightarrow> string list \<Rightarrow> int \<Rightarrow> (nat \<times> TextBound) list \<Rightarrow>
   MatchResult list \<Rightarrow> int \<Rightarrow> error + MatchResult list" where
  "window_body context_window threshold entity entity_words p bounds_list results i =
     bind_err
       (comprehension
          (\<lambda>j. bind_err (py_index bounds_list (i + j)) (\<lambda>b. Inr (str_lower (text (snd b)))))
          (py_range (int (length entity_words))))
       (\<lambda>window_words.
          let window_text = str_join '' '' window_words;
              confidence = fuzz_ratio (str_lower entity) window_text
          in if confidence \<ge> threshold then
               (let context_start = max 0 (i - context_window);
                    context_end = min (int (length bounds_list))
                                      (i + int (length entity_words) + context_window)
                in bind_err
                     (comprehension
                        (\<lambda>j. bind_err (py_index bounds_list j) (\<lambda>b. Inr (text (snd b))))
                        (py_range2 context_start context_end))
                     (\<lambda>context_words.
                        bind_err (py_index bounds_list i) (\<lambda>first.
                        bind_err (py_index bounds_list (i + int (length entity_words) - 1)) (\<lambda>last.
                          Inr (results @
                            [\<lparr>text_bound =
                                 \<lparr>text = window_text,
                                  x0 = x0 (snd first), y0 = y0 (snd first),
                                  x1 = x1 (snd last), y1 = y1 (snd last),
                                  page = p\<rparr>,
                               confidence = confidence,
                               context = Some (str_join '' '' context_words)\<rparr>])))))
             else Inr results)"

definition page_body ::
  "int \<Rightarrow> real \<Rightarrow> string \<Rightarrow> string list \<Rightarrow> MatchResult list \<Rightarrow>
   int \<times> (nat \<times> TextBound) list \<Rightarrow> error + MatchResult list" where
  "page_body context_window threshold entity entity_words results pg =
     for_loop
       (window_body context_window threshold entity entity_words (fst pg) (snd pg))
       results
       (py_range (int (length (snd pg)) - int (length entity_words) + 1))"

definition ContextualMatchingStrategy_match ::
  "int \<Rightarrow> real \<Rightarrow> string \<Rightarrow> TextBound list \<Rightarrow> error + MatchResult list" where
  "ContextualMatchingStrategy_match context_window threshold entity text_bounds =
     (let entity_words = str_split (str_lower entity);
          page_groups = build_page_groups text_bounds
      in for_loop (page_body context_window threshold entity entity_words) [] page_groups)"

section \<open>MatchingStrategyFactory\<close>

text \<open>A strategy object is its class together with the attributes its constructor
  stored; the attributes hold whatever value the caller passed.\<close>

datatype strategy =
  ExactMatchingStrategy
| FuzzyMatchingStrategy pyval
| ContextualMatchingStrategy pyval pyval

datatype strategy_class = ExactClass | FuzzyClass | ContextualClass

text \<open>\<open>kwargs.get(key, default)\<close> on a keyword dictionary.\<close>

definition kwargs_get :: "(string \<times> pyval) list \<Rightarrow> string \<Rightarrow> pyval \<Rightarrow> pyval" where
  "kwargs_get kwargs k d = (case map_of kwargs k of None \<Rightarrow> d | Some v \<Rightarrow> v)"

text \<open>Calling a class with keyword arguments runs its \<open>__init__\<close>: a keyword that is
  not a parameter raises \<open>TypeError\<close>, a parameter that is not given takes the default
  of the signature (\<open>threshold = 80.0\<close> for the fuzzy strategy, \<open>context_window = 3\<close> and
  \<open>threshold = 70.0\<close> for the contextual one).\<close>

fun call_class :: "strategy_class \<Rightarrow> (string \<times> pyval) list \<Rightarrow> error + strategy" where
  "call_class ExactClass args =
     (if args = [] then Inr ExactMatchingStrategy else Inl TypeError)"
| "call_class FuzzyClass args =
     (if filter (\<lambda>k. k \<noteq> ''threshold'') (map fst args) = []
      then Inr (FuzzyMatchingStrategy (kwargs_get args ''threshold'' (PFloat 80)))
      else Inl TypeError)"
| "call_class ContextualClass args =
     (if filter (\<lambda>k. k \<noteq> ''context_window'' \<and> k \<noteq> ''threshold'') (map fst args) = []
      then Inr (ContextualMatchingStrategy
                  (kwargs_get args ''context_window'' (PInt 3))
                  (kwargs_get args ''threshold'' (PFloat 70)))
      else Inl TypeError)"

definition strategies :: "(string \<times> strategy_class) list" where
  "strategies =
     [(''exact'', ExactClass), (''fuzzy'', FuzzyClass), (''contextual'', ContextualClass)]"

text \<open>The result is \<open>Inr None\<close> where the Python function falls off its last \<open>elif\<close>
  and returns \<open>None\<close>.\<close>

definition create_strategy ::
  "string \<Rightarrow> (string \<times> pyval) list \<Rightarrow> error + strategy option" where
  "create_strategy strategy_type kwargs =
     (case map_of strategies (str_lower strategy_type) of
        None \<Rightarrow>
          Inl (ValueError (''Unknown strategy type: '' @ strategy_type @ ''. '' @
                           ''Available types: '' @ str_join '', '' (map fst strategies)))
      | Some strategy_class \<Rightarrow>
          if str_lower strategy_type = ''exact'' then
            bind_err (call_class strategy_class []) (\<lambda>s. Inr (Some s))
          else if str_lower strategy_type = ''fuzzy'' then
            (let threshold = kwargs_get kwargs ''threshold'' (PFloat 80)
             in bind_err (call_class strategy_class [(''threshold'', threshold)])
                  (\<lambda>s. Inr (Some s)))
          else if str_lower strategy_type = ''contextual'' then
            (let context_window = kwargs_get kwargs ''context_window'' (PInt 3);
                 threshold = kwargs_get kwargs ''threshold'' (PFloat 70)
             in bind_err (call_class strategy_class
                            [(''context_window'', context_window), (''threshold'', threshold)])
                  (\<lambda>s. Inr (Some s)))
          else Inr None)"

section \<open>The contextual search as the specification words it\<close>

text \<open>The following definitions follow the specification's description of the
  contextual algorithm (section 4.4), to be compared with the loops above: the pages
  in order of first appearance, the tokens of one page in input order, the window of
  \<open>k\<close> consecutive tokens that starts at index \<open>i\<close>, the window text, the tokens from
  index \<open>max(0, i - c)\<close> to \<open>min(n, i + k + c)\<close> exclusive, and the result emitted for a
  window.\<close>

definition spec_pages :: "TextBound list \<Rightarrow> int list" where
  "spec_pages tokens = rev (remdups (rev (map page tokens)))"

definition spec_group :: "int \<Rightarrow> TextBound list \<Rightarrow> TextBound list" where
  "spec_group p tokens = filter (\<lambda>t. page t = p) tokens"

definition spec_window :: "nat \<Rightarrow> nat \<Rightarrow> TextBound list \<Rightarrow> TextBound list" where
  "spec_window k i g = take k (drop i g)"

definition spec_window_text :: "TextBound list \<Rightarrow> string" where
  "spec_window_text ws = str_join '' '' (map (\<lambda>t. str_lower (text t)) ws)"

definition spec_slice :: "int \<Rightarrow> int \<Rightarrow> 'a list \<Rightarrow> 'a list" where
  "spec_slice a b g = take (nat b - nat a) (drop (nat a) g)"

definition spec_context :: "int \<Rightarrow> nat \<Rightarrow> nat \<Rightarrow> TextBound list \<Rightarrow> string" where
  "spec_context c k i g =
     str_join '' ''
       (map text (spec_slice (max 0 (int i - c))
                             (min (int (length g)) (int i + int k + c)) g))"

definition spec_result ::
  "int \<Rightarrow> string \<Rightarrow> nat \<Rightarrow> int \<Rightarrow> TextBound list \<Rightarrow> nat \<Rightarrow> MatchResult" where
  "spec_result c e k p g i =
     (let ws = spec_window k i g
      in \<lparr>text_bound =
            \<lparr>text = spec_window_text ws,
             x0 = x0 (hd ws), y0 = y0 (hd ws), x1 = x1 (last ws), y1 = y1 (last ws),
             page = p\<rparr>,
          confidence = fuzz_ratio (str_lower e) (spec_window_text ws),
          context = Some (spec_context c k i g)\<rparr>)"

definition spec_clears :: "real \<Rightarrow> string \<Rightarrow> nat \<Rightarrow> TextBound list \<Rightarrow> nat \<Rightarrow> bool" where
  "spec_clears th e k g i =
     (fuzz_ratio (str_lower e) (spec_window_text (spec_window k i g)) \<ge> th)"

definition spec_page_results ::
  "int \<Rightarrow> real \<Rightarrow> string \<Rightarrow> nat \<Rightarrow> int \<Rightarrow> TextBound list \<Rightarrow> MatchResult list" where
  "spec_page_results c th e k p g =
     map (spec_result c e k p g) (filter (spec_clears th e k g) [0..<length g + 1 - k])"

definition spec_contextual ::
  "int \<Rightarrow> real \<Rightarrow> string \<Rightarrow> TextBound list \<Rightarrow> MatchResult list" where
  "spec_contextual c th e tokens =
     (let k = length (str_split (str_lower e))
      in concat (map (\<lambda>p. spec_page_results c th e k p (spec_group p tokens))
                     (spec_pages tokens)))"

section \<open>Auxiliary definitions\<close>

text \<open>The page groups of a list of \<open>(idx, text_bound)\<close> pairs in closed form: one entry
  for every page, in order of first appearance, with the pairs of that page.\<close>

definition groups_of :: "(nat \<times> TextBound) list \<Rightarrow> page_groups" where
  "groups_of its =
     map (\<lambda>p. (p, filter (\<lambda>it. page (snd it) = p) its))
         (rev (remdups (rev (map (\<lambda>it. page (snd it)) its))))"

text \<open>A small document on two pages, for concrete instances.\<close>

definition tok_A :: TextBound where
  "tok_A = \<lparr>text = ''A'', x0 = 1, y0 = 2, x1 = 3, y1 = 4, page = 0\<rparr>"

definition tok_x :: TextBound where
  "tok_x = \<lparr>text = ''x'', x0 = 5, y0 = 6, x1 = 7, y1 = 8, page = 1\<rparr>"

definition tok_b :: TextBound where
  "tok_b = \<lparr>text = ''b'', x0 = 9, y0 = 10, x1 = 11, y1 = 12, page = 0\<rparr>"

text \<open>A one-page document in which the words \<open>a b\<close> occur twice.\<close>

definition tok :: "string \<Rightarrow> real \<Rightarrow> TextBound" where
  "tok s x = \<lparr>text = s, x0 = x, y0 = 0, x1 = x + 1, y1 = 1, page = 0\<rparr>"

definition doc_abcab :: "TextBound list" where
  "doc_abcab = [tok ''a'' 0, tok ''b'' 2, tok ''c'' 4, tok ''a'' 6, tok ''b'' 8]"

section \<open>Exact matching\<close>

lemma exact_loop_eq:
  "exact_loop el results tbs =
     results @ map (\<lambda>t. \<lparr>text_bound = t, confidence = 100, context = None\<rparr>)
                   (filter (\<lambda>t. str_lower (text t) = el) tbs)"
  by (induction tbs arbitrary: results) simp_all

lemma exact_match_eq:
  "ExactMatchingStrategy_match e tokens =
     map (\<lambda>t. \<lparr>text_bound = t, confidence = 100, context = None\<rparr>)
         (filter (\<lambda>t. str_lower (text t) = str_lower e) tokens)"
  by (simp add: ExactMatchingStrategy_match_def exact_loop_eq)

text \<open>C2: for every entity and every token sequence the exact strategy returns, in
  input order, one result for each token whose lowercased text equals the lowercased
  entity and for no other token; the result carries that token's TextBound unchanged,
  confidence 100 and no context.\<close>

theorem exact_match_subsequence:
  "ExactMatchingStrategy_match e tokens =
     map (\<lambda>t. \<lparr>text_bound = t, confidence = 100, context = None\<rparr>)
         (filter (\<lambda>t. str_lower (text t) = str_lower e) tokens)"
  by (simp add: ExactMatchingStrategy_match_def exact_loop_eq)

section \<open>Strings and the similarity ratio\<close>

lemmas lower_eval = str_lower_def lower_char_def char_of_def bit_0

lemma lower_char_idem: "lower_char (lower_char c) = lower_char c"
  by (simp add: lower_char_def)

lemma str_lower_idem: "str_lower (str_lower s) = str_lower s"
  by (simp add: str_lower_def lower_char_idem)

lemma str_lower_append: "str_lower (a @ b) = str_lower a @ str_lower b"
  by (simp add: str_lower_def)

lemma str_lower_Cons_space: "str_lower (CHR '' '' # s) = CHR '' '' # str_lower s"
  by (simp add: str_lower_def lower_char_def)

lemma str_lower_join:
  "str_lower (str_join '' '' xs) = str_join '' '' (map str_lower xs)"
proof (induction xs)
  case Nil
  show ?case by (simp add: str_lower_def)
next
  case (Cons x xs)
  then show ?case
    by (cases xs) (simp_all add: str_lower_append str_lower_Cons_space)
qed

lemma lcs_len_le: "lcs_len xs ys \<le> min (length xs) (length ys)"
  by (induction xs ys rule: lcs_len.induct) auto

lemma lcs_len_refl: "lcs_len xs xs = length xs"
  by (induction xs) simp_all

lemma lcs_len_full:
  "length xs = length ys \<Longrightarrow> lcs_len xs ys = length xs \<Longrightarrow> xs = ys"
proof (induction xs ys rule: lcs_len.induct)
  case (3 x xs y ys)
  show ?case
  proof (cases "x = y")
    case True
    with 3 show ?thesis by simp
  next
    case False
    have "lcs_len (x # xs) ys \<le> length ys" "lcs_len xs (y # ys) \<le> length xs"
      using lcs_len_le[of "x # xs" ys] lcs_len_le[of xs "y # ys"] by simp_all
    with False 3(4,5) show ?thesis by simp
  qed
qed simp_all

lemma indel_distance_le: "indel_distance a b \<le> length a + length b"
  by (simp add: indel_distance_def)

lemma indel_distance_0_iff: "indel_distance a b = 0 \<longleftrightarrow> a = b"
proof
  assume h: "indel_distance a b = 0"
  have "lcs_len a b \<le> length a" "lcs_len a b \<le> length b"
    using lcs_len_le[of a b] by simp_all
  with h have "length a = length b" "lcs_len a b = length a"
    by (simp_all add: indel_distance_def)
  then show "a = b" by (rule lcs_len_full)
next
  assume "a = b"
  then show "indel_distance a b = 0" by (simp add: indel_distance_def lcs_len_refl)
qed

lemma nat_quotient_le_1:
  fixes d m :: nat
  assumes "m \<noteq> 0" "d \<le> m"
  shows "real d / real m \<le> 1"
  using assms by (simp add: divide_le_eq_1)

lemma nat_quotient_0_iff:
  fixes d m :: nat
  assumes "m \<noteq> 0"
  shows "real d / real m = 0 \<longleftrightarrow> d = 0"
  using assms by simp

lemma fuzz_ratio_alt:
  "fuzz_ratio a b =
     (if length a + length b = 0 then 100
      else (1 - real (indel_distance a b) / real (length a + length b)) * 100)"
  unfolding fuzz_ratio_def Let_def by (simp only: if_distrib[of "\<lambda>x. (1 - x) * 100"] diff_zero mult_1 split: if_splits)

lemma fuzz_ratio_ge_0: "0 \<le> fuzz_ratio a b"
proof (cases "length a + length b = 0")
  case True
  then show ?thesis by (simp only: fuzz_ratio_alt if_True) simp
next
  case False
  define q where "q = real (indel_distance a b) / real (length a + length b)"
  have q1: "q \<le> 1"
    unfolding q_def using False indel_distance_le[of a b] by (rule nat_quotient_le_1)
  have "fuzz_ratio a b = (1 - q) * 100"
    unfolding q_def using False by (simp only: fuzz_ratio_alt if_False)
  with q1 show ?thesis by simp
qed

lemma fuzz_ratio_le_100: "fuzz_ratio a b \<le> 100"
  by (simp add: fuzz_ratio_def Let_def)

lemma fuzz_ratio_100_iff: "fuzz_ratio a b = 100 \<longleftrightarrow> a = b"
proof (cases "length a + length b = 0")
  case True
  then show ?thesis by (simp add: fuzz_ratio_def)
next
  case False
  have "fuzz_ratio a b = 100 \<longleftrightarrow>
      real (indel_distance a b) / real (length a + length b) = 0"
    using False by (simp only: fuzz_ratio_alt if_False) simp
  also have "\<dots> \<longleftrightarrow> indel_distance a b = 0"
    using False by (rule nat_quotient_0_iff)
  finally show ?thesis by (simp add: indel_distance_0_iff)
qed

section \<open>Fuzzy matching\<close>

lemma fuzzy_loop_eq:
  "fuzzy_loop th e results tbs =
     results @
     map (\<lambda>t. \<lparr>text_bound = t, confidence = fuzz_ratio (str_lower e) (str_lower (text t)),
               context = None\<rparr>)
         (filter (\<lambda>t. fuzz_ratio (str_lower e) (str_lower (text t)) \<ge> th) tbs)"
  by (induction tbs arbitrary: results) (simp_all add: Let_def)

lemma fuzzy_match_eq:
  "FuzzyMatchingStrategy_match th e tokens =
     map (\<lambda>t. \<lparr>text_bound = t, confidence = fuzz_ratio (str_lower e) (str_lower (text t)),
               context = None\<rparr>)
         (filter (\<lambda>t. fuzz_ratio (str_lower e) (str_lower (text t)) \<ge> th) tokens)"
  by (simp add: FuzzyMatchingStrategy_match_def fuzzy_loop_eq)

text \<open>C4 (as amended): every result of the fuzzy strategy has a confidence between
  the threshold and 100; the matched tokens are the tokens that reach the threshold,
  in input order; and when the threshold is at most 100 and some token equals the
  entity up to letter case, some result has confidence exactly 100.\<close>

theorem fuzzy_match_threshold:
  "(\<forall>r \<in> set (FuzzyMatchingStrategy_match th e tokens).
       th \<le> confidence r \<and> confidence r \<le> 100) \<and>
   map text_bound (FuzzyMatchingStrategy_match th e tokens) =
     filter (\<lambda>t. fuzz_ratio (str_lower e) (str_lower (text t)) \<ge> th) tokens \<and>
   (th \<le> 100 \<longrightarrow> (\<exists>t \<in> set tokens. str_lower (text t) = str_lower e) \<longrightarrow>
      (\<exists>r \<in> set (FuzzyMatchingStrategy_match th e tokens). confidence r = 100))"
proof -
  have a: "\<forall>r \<in> set (FuzzyMatchingStrategy_match th e tokens).
       th \<le> confidence r \<and> confidence r \<le> 100"
    by (auto simp: fuzzy_match_eq fuzz_ratio_le_100)
  have b: "map text_bound (FuzzyMatchingStrategy_match th e tokens) =
     filter (\<lambda>t. fuzz_ratio (str_lower e) (str_lower (text t)) \<ge> th) tokens"
    by (simp add: fuzzy_match_eq comp_def)
  have c: "\<exists>r \<in> set (FuzzyMatchingStrategy_match th e tokens). confidence r = 100"
    if th: "th \<le> 100" and t: "t \<in> set tokens" "str_lower (text t) = str_lower e" for t
  proof -
    have r: "fuzz_ratio (str_lower e) (str_lower (text t)) = 100"
      using t(2) by (simp add: fuzz_ratio_100_iff)
    let ?r = "\<lparr>text_bound = t, confidence = fuzz_ratio (str_lower e) (str_lower (text t)),
               context = None\<rparr>"
    have "?r \<in> set (FuzzyMatchingStrategy_match th e tokens)"
      unfolding fuzzy_match_eq using t(1) th r by (simp add: image_iff)
    moreover have "confidence ?r = 100" using r by simp
    ultimately show ?thesis by blast
  qed
  from a b c show ?thesis by blast
qed

text \<open>With a threshold above 100 a token equal to the entity up to letter case is
  dropped, so no result has confidence 100.\<close>

theorem fuzzy_match_threshold_counterexample:
  "str_lower (text \<lparr>text = ''a'', x0 = 0, y0 = 0, x1 = 1, y1 = 1, page = 0\<rparr>) = str_lower ''A'' \<and>
   FuzzyMatchingStrategy_match 101 ''A''
     [\<lparr>text = ''a'', x0 = 0, y0 = 0, x1 = 1, y1 = 1, page = 0\<rparr>] = []"
  by (simp add: FuzzyMatchingStrategy_match_def lower_eval fuzz_ratio_def indel_distance_def)

theorem fuzzy_match_threshold_witness:
  "map confidence (FuzzyMatchingStrategy_match 80 ''World''
     [\<lparr>text = ''Hello'', x0 = 10, y0 = 20, x1 = 30, y1 = 25, page = 0\<rparr>,
      \<lparr>text = ''World'', x0 = 35, y0 = 20, x1 = 55, y1 = 25, page = 0\<rparr>]) = [100]"
proof -
  let ?h = "\<lparr>text = ''Hello'', x0 = 10, y0 = 20, x1 = 30, y1 = 25, page = 0\<rparr>"
  let ?w = "\<lparr>text = ''World'', x0 = 35, y0 = 20, x1 = 55, y1 = 25, page = 0\<rparr>"
  have f: "filter (\<lambda>t. fuzz_ratio (str_lower ''World'') (str_lower (text t)) \<ge> 80) [?h, ?w] = [?w]"
    by (simp add: lower_eval fuzz_ratio_def indel_distance_def)
  have "length (FuzzyMatchingStrategy_match 80 ''World'' [?h, ?w]) = 1"
    using fuzzy_match_threshold[of 80 "''World''" "[?h, ?w]"] f
    by (metis length_map length_Cons list.size(3) One_nat_def)
  then obtain r where r: "FuzzyMatchingStrategy_match 80 ''World'' [?h, ?w] = [r]"
    by (cases "FuzzyMatchingStrategy_match 80 ''World'' [?h, ?w]") auto
  have "\<exists>t \<in> set [?h, ?w]. str_lower (text t) = str_lower ''World''" by simp
  with fuzzy_match_threshold[of 80 "''World''" "[?h, ?w]"]
  have "\<exists>r \<in> set (FuzzyMatchingStrategy_match 80 ''World'' [?h, ?w]). confidence r = 100"
    by simp
  with r show ?thesis by simp
qed

section \<open>Serialization\<close>

lemma to_dict_keys:
  "map fst (MatchResult_to_dict r) =
     (if truthy (context r) then [''match'', ''confidence'', ''context'']
      else [''match'', ''confidence''])"
  by (simp add: MatchResult_to_dict_def)

text \<open>C10: the dictionary built by \<open>MatchResult.to_dict\<close> has a \<open>"context"\<close> key exactly
  when the result's context is a non-empty string; a result whose context is the
  empty string has no such key, and every result of the exact and of the fuzzy
  strategy serializes to exactly the keys \<open>"match"\<close> and \<open>"confidence"\<close>.\<close>

theorem to_dict_context_key:
  "(''context'' \<in> set (map fst (MatchResult_to_dict r)) \<longleftrightarrow>
      (\<exists>s. context r = Some s \<and> s \<noteq> [])) \<and>
   (context r = Some [] \<longrightarrow> ''context'' \<notin> set (map fst (MatchResult_to_dict r))) \<and>
   (\<forall>x \<in> set (ExactMatchingStrategy_match e tokens).
      map fst (MatchResult_to_dict x) = [''match'', ''confidence'']) \<and>
   (\<forall>x \<in> set (FuzzyMatchingStrategy_match th e tokens).
      map fst (MatchResult_to_dict x) = [''match'', ''confidence''])"
proof -
  have a: "''context'' \<in> set (map fst (MatchResult_to_dict r)) \<longleftrightarrow>
      (\<exists>s. context r = Some s \<and> s \<noteq> [])"
    unfolding to_dict_keys by (cases "context r") (simp_all add: truthy_def)
  have b: "context r = Some [] \<longrightarrow> ''context'' \<notin> set (map fst (MatchResult_to_dict r))"
    unfolding to_dict_keys by (simp add: truthy_def)
  have c: "\<forall>x \<in> set (ExactMatchingStrategy_match e tokens).
      map fst (MatchResult_to_dict x) = [''match'', ''confidence'']"
    unfolding to_dict_keys exact_match_eq by (auto simp: truthy_def)
  have d: "\<forall>x \<in> set (FuzzyMatchingStrategy_match th e tokens).
      map fst (MatchResult_to_dict x) = [''match'', ''confidence'']"
    unfolding to_dict_keys fuzzy_match_eq by (auto simp: truthy_def)
  from a b c d show ?thesis by blast
qed

theorem to_dict_context_key_witness:
  "''context'' \<notin> set (map fst (MatchResult_to_dict
       \<lparr>text_bound = \<lparr>text = ''a'', x0 = 0, y0 = 0, x1 = 1, y1 = 1, page = 0\<rparr>,
        confidence = 100, context = Some ''''\<rparr>)) \<and>
   ''context'' \<in> set (map fst (MatchResult_to_dict
       \<lparr>text_bound = \<lparr>text = ''a'', x0 = 0, y0 = 0, x1 = 1, y1 = 1, page = 0\<rparr>,
        confidence = 100, context = Some ''a b''\<rparr>)) \<and>
   map (\<lambda>x. map fst (MatchResult_to_dict x))
       (ExactMatchingStrategy_match ''A''
          [\<lparr>text = ''a'', x0 = 0, y0 = 0, x1 = 1, y1 = 1, page = 0\<rparr>]) =
     [[''match'', ''confidence'']]"
proof -
  let ?tb = "\<lparr>text = ''a'', x0 = 0, y0 = 0, x1 = 1, y1 = 1, page = 0\<rparr>"
  let ?r0 = "\<lparr>text_bound = ?tb, confidence = 100, context = Some ''''\<rparr>"
  let ?r1 = "\<lparr>text_bound = ?tb, confidence = 100, context = Some ''a b''\<rparr>"
  have m: "ExactMatchingStrategy_match ''A'' [?tb] =
             [\<lparr>text_bound = ?tb, confidence = 100, context = None\<rparr>]"
    by (simp add: ExactMatchingStrategy_match_def lower_eval)
  have a: "''context'' \<notin> set (map fst (MatchResult_to_dict ?r0))"
    using to_dict_context_key[of ?r0 "''A''" "[?tb]" 0] by simp
  have b: "''context'' \<in> set (map fst (MatchResult_to_dict ?r1))"
    using to_dict_context_key[of ?r1 "''A''" "[?tb]" 0] by simp
  have c: "\<forall>x \<in> set (ExactMatchingStrategy_match ''A'' [?tb]).
      map fst (MatchResult_to_dict x) = [''match'', ''confidence'']"
    using to_dict_context_key[of ?r1 "''A''" "[?tb]" 0] by blast
  from a b c show ?thesis unfolding m by simp
qed

section \<open>The factory\<close>

lemma strategies_lookup:
  "map_of strategies n =
    (if n = ''exact'' then Some ExactClass else if n = ''fuzzy'' then Some FuzzyClass
     else if n = ''contextual'' then Some ContextualClass else None)"
  by (simp add: strategies_def)

lemma valid_names: "str_join '', '' (map fst strategies) = ''exact, fuzzy, contextual''"
  by (simp add: strategies_def)

lemma create_strategy_eq:
  "create_strategy n kw =
    (if str_lower n = ''exact'' then Inr (Some ExactMatchingStrategy)
     else if str_lower n = ''fuzzy''
       then Inr (Some (FuzzyMatchingStrategy (kwargs_get kw ''threshold'' (PFloat 80))))
     else if str_lower n = ''contextual''
       then Inr (Some (ContextualMatchingStrategy (kwargs_get kw ''context_window'' (PInt 3))
                          (kwargs_get kw ''threshold'' (PFloat 70))))
     else Inl (ValueError (''Unknown strategy type: '' @ n @
                 ''. Available types: exact, fuzzy, contextual'')))"
  unfolding create_strategy_def strategies_lookup valid_names
  by (simp add: bind_err_def kwargs_get_def)

text \<open>C8: \<open>create_strategy\<close> compares the lowercased name with \<open>exact\<close>, \<open>fuzzy\<close>
  and \<open>contextual\<close>.  For any other name it raises \<open>ValueError\<close> with a message that
  contains the name as given and the three valid names; for a recognised name it
  returns a strategy, and the same one for every spelling of the name that differs
  only in letter case.\<close>

theorem create_strategy_by_name:
  "(str_lower n \<notin> {''exact'', ''fuzzy'', ''contextual''} \<longrightarrow>
      create_strategy n kw =
        Inl (ValueError (''Unknown strategy type: '' @ n @
                         ''. Available types: exact, fuzzy, contextual'')) \<and>
      (\<exists>msg. create_strategy n kw = Inl (ValueError msg) \<and> sublist n msg \<and>
             sublist ''exact'' msg \<and> sublist ''fuzzy'' msg \<and> sublist ''contextual'' msg)) \<and>
   (str_lower n \<in> {''exact'', ''fuzzy'', ''contextual''} \<longrightarrow>
      (\<exists>s. create_strategy n kw = Inr (Some s)) \<and>
      (\<forall>n'. str_lower n' = str_lower n \<longrightarrow> create_strategy n' kw = create_strategy n kw))"
proof -
  let ?pre = "''Unknown strategy type: ''"
  let ?msg = "?pre @ n @ ''. Available types: exact, fuzzy, contextual''"
  have s0: "sublist n ?msg"
    unfolding sublist_def by blast
  have s1: "sublist ''exact'' ?msg"
    unfolding sublist_def
    by (rule exI[of _ "?pre @ n @ ''. Available types: ''"],
        rule exI[of _ "'', fuzzy, contextual''"]) simp
  have s2: "sublist ''fuzzy'' ?msg"
    unfolding sublist_def
    by (rule exI[of _ "?pre @ n @ ''. Available types: exact, ''"],
        rule exI[of _ "'', contextual''"]) simp
  have s3: "sublist ''contextual'' ?msg"
    unfolding sublist_def
    by (rule exI[of _ "?pre @ n @ ''. Available types: exact, fuzzy, ''"],
        rule exI[of _ "[]"]) simp
  have bad: "str_lower n \<notin> {''exact'', ''fuzzy'', ''contextual''} \<Longrightarrow>
      create_strategy n kw = Inl (ValueError ?msg)"
    by (simp add: create_strategy_eq)
  have good: "str_lower n \<in> {''exact'', ''fuzzy'', ''contextual''} \<Longrightarrow>
      \<exists>s. create_strategy n kw = Inr (Some s)"
    by (auto simp: create_strategy_eq)
  have same: "\<And>n'. str_lower n \<in> {''exact'', ''fuzzy'', ''contextual''} \<Longrightarrow>
      str_lower n' = str_lower n \<Longrightarrow> create_strategy n' kw = create_strategy n kw"
    by (auto simp: create_strategy_eq)
  from s0 s1 s2 s3 bad good same show ?thesis by blast
qed

theorem create_strategy_by_name_witness:
  "create_strategy ''bogus'' [] =
     Inl (ValueError ''Unknown strategy type: bogus. Available types: exact, fuzzy, contextual'') \<and>
   create_strategy ''FUZZY'' [(''threshold'', PFloat 85)] =
     create_strategy ''fuzzy'' [(''threshold'', PFloat 85)] \<and>
   (\<exists>s. create_strategy ''fuzzy'' [(''threshold'', PFloat 85)] = Inr (Some s))"
proof -
  have l1: "str_lower ''bogus'' \<notin> {''exact'', ''fuzzy'', ''contextual''}"
    by (simp add: lower_eval)
  have l2: "str_lower ''fuzzy'' \<in> {''exact'', ''fuzzy'', ''contextual''}"
    by (simp add: lower_eval)
  have l3: "str_lower ''FUZZY'' = str_lower ''fuzzy''"
    by (simp add: lower_eval)
  from create_strategy_by_name[of "''bogus''" "[]"] l1
  have a: "create_strategy ''bogus'' [] =
     Inl (ValueError ''Unknown strategy type: bogus. Available types: exact, fuzzy, contextual'')"
    by simp
  from create_strategy_by_name[of "''fuzzy''" "[(''threshold'', PFloat 85)]"] l2 l3
  have b: "create_strategy ''FUZZY'' [(''threshold'', PFloat 85)] =
     create_strategy ''fuzzy'' [(''threshold'', PFloat 85)]"
    and c: "\<exists>s. create_strategy ''fuzzy'' [(''threshold'', PFloat 85)] = Inr (Some s)"
    by blast+
  from a b c show ?thesis by blast
qed

text \<open>C9: the factory takes \<open>threshold\<close> and \<open>context_window\<close> from the keyword
  arguments whenever the key is present, whatever its value (\<open>None\<close> included), and
  uses the defaults 80.0, 3 and 70.0 only for a key that is absent.\<close>

theorem create_strategy_defaults:
  "(str_lower n = ''fuzzy'' \<longrightarrow>
      create_strategy n kw =
        Inr (Some (FuzzyMatchingStrategy
                     (case map_of kw ''threshold'' of Some v \<Rightarrow> v | None \<Rightarrow> PFloat 80)))) \<and>
   (str_lower n = ''contextual'' \<longrightarrow>
      create_strategy n kw =
        Inr (Some (ContextualMatchingStrategy
                     (case map_of kw ''context_window'' of Some v \<Rightarrow> v | None \<Rightarrow> PInt 3)
                     (case map_of kw ''threshold'' of Some v \<Rightarrow> v | None \<Rightarrow> PFloat 70))))"
  by (simp add: create_strategy_eq kwargs_get_def)

theorem create_strategy_defaults_witness:
  "create_strategy ''fuzzy'' [(''threshold'', PNone), (''context_window'', PNone)] =
     Inr (Some (FuzzyMatchingStrategy PNone)) \<and>
   create_strategy ''Contextual'' [(''threshold'', PNone)] =
     Inr (Some (ContextualMatchingStrategy (PInt 3) PNone)) \<and>
   create_strategy ''fuzzy'' [] = Inr (Some (FuzzyMatchingStrategy (PFloat 80)))"
proof -
  have l1: "str_lower ''fuzzy'' = ''fuzzy''" by (simp add: lower_eval)
  have l2: "str_lower ''Contextual'' = ''contextual''" by (simp add: lower_eval)
  from create_strategy_defaults[of "''fuzzy''" "[(''threshold'', PNone), (''context_window'', PNone)]"] l1
  have a: "create_strategy ''fuzzy'' [(''threshold'', PNone), (''context_window'', PNone)] =
     Inr (Some (FuzzyMatchingStrategy PNone))" by simp
  from create_strategy_defaults[of "''Contextual''" "[(''threshold'', PNone)]"] l2
  have b: "create_strategy ''Contextual'' [(''threshold'', PNone)] =
     Inr (Some (ContextualMatchingStrategy (PInt 3) PNone))" by simp
  from create_strategy_defaults[of "''fuzzy''" "[]"] l1
  have c: "create_strategy ''fuzzy'' [] = Inr (Some (FuzzyMatchingStrategy (PFloat 80)))" by simp
  from a b c show ?thesis by blast
qed

section \<open>Contextual matching\<close>

lemma comprehension_Inr:
  "(\<And>x. x \<in> set xs \<Longrightarrow> f x = Inr (g x)) \<Longrightarrow> comprehension f xs = Inr (map g xs)"
  by (induction xs) (simp_all add: bind_err_def)

lemma comprehension_map: "comprehension f (map g xs) = comprehension (\<lambda>x. f (g x)) xs"
  by (induction xs) simp_all

lemma py_index_nat: "i < length xs \<Longrightarrow> py_index xs (int i) = Inr (xs ! i)"
  by (simp add: py_index_def)

lemma upto_as_upt: "0 \<le> a \<Longrightarrow> [a..b - 1] = map int [nat a..<nat b]"
  by (auto simp: list_eq_iff_nth_eq nth_upto)

lemma py_range2_upt: "0 \<le> a \<Longrightarrow> py_range2 a b = map int [nat a..<nat b]"
  by (simp add: py_range2_def upto_as_upt)

lemma py_range_upt: "py_range n = map int [0..<nat n]"
  by (simp add: py_range_def py_range2_upt)

lemma py_range2_shift: "py_range2 (int i) (int i + int k) = map (\<lambda>j. int i + j) (py_range (int k))"
  by (simp add: py_range_upt py_range2_upt list_eq_iff_nth_eq nat_add_distrib)

lemma map_nth_slice:
  "n \<le> length xs \<Longrightarrow> map ((!) xs) [m..<n] = take (n - m) (drop m xs)"
  by (auto simp: list_eq_iff_nth_eq)

lemma index_comprehension:
  assumes "0 \<le> a" "nat b \<le> length xs"
  shows "comprehension (\<lambda>j. bind_err (py_index xs j) (\<lambda>v. Inr (f v))) (py_range2 a b) =
           Inr (map f (spec_slice a b xs))"
proof -
  have "comprehension (\<lambda>j. bind_err (py_index xs j) (\<lambda>v. Inr (f v))) (map int [nat a..<nat b]) =
          Inr (map (\<lambda>j. f (xs ! nat j)) (map int [nat a..<nat b]))"
  proof (rule comprehension_Inr)
    fix x assume "x \<in> set (map int [nat a..<nat b])"
    then obtain m where m: "x = int m" "m < nat b" by auto
    with assms(2) have "m < length xs" by simp
    then show "bind_err (py_index xs x) (\<lambda>v. Inr (f v)) = Inr (f (xs ! nat x))"
      using m(1) by (simp add: py_index_nat bind_err_def)
  qed
  moreover have "map (\<lambda>j. f (xs ! nat j)) (map int [nat a..<nat b]) =
                   map f (map ((!) xs) [nat a..<nat b])"
    by simp
  ultimately show ?thesis
    using assms by (simp add: py_range2_upt spec_slice_def map_nth_slice)
qed

lemma spec_slice_map: "spec_slice a b (map f xs) = map f (spec_slice a b xs)"
  by (simp add: spec_slice_def take_map drop_map)

lemma spec_slice_window: "spec_slice (int i) (int i + int k) xs = take k (drop i xs)"
  by (simp add: spec_slice_def nat_add_distrib)

lemma window_words_ok:
  assumes "i + k \<le> length bl"
  shows "comprehension
           (\<lambda>j. bind_err (py_index bl (int i + j)) (\<lambda>b. Inr (str_lower (text (snd b)))))
           (py_range (int k)) =
         Inr (map (\<lambda>t. str_lower (text t)) (spec_window k i (map snd bl)))"
proof -
  have "comprehension
           (\<lambda>j. bind_err (py_index bl (int i + j)) (\<lambda>b. Inr (str_lower (text (snd b)))))
           (py_range (int k)) =
        comprehension
           (\<lambda>j. bind_err (py_index bl j) (\<lambda>b. Inr (str_lower (text (snd b)))))
           (py_range2 (int i) (int i + int k))"
    by (simp add: py_range2_shift comprehension_map)
  also have "\<dots> = Inr (map (\<lambda>b. str_lower (text (snd b))) (spec_slice (int i) (int i + int k) bl))"
    using assms by (intro index_comprehension) (simp_all add: nat_add_distrib)
  also have "map (\<lambda>b. str_lower (text (snd b))) (spec_slice (int i) (int i + int k) bl) =
             map (\<lambda>t. str_lower (text t)) (spec_window k i (map snd bl))"
    by (simp add: spec_slice_window spec_window_def take_map drop_map comp_def)
  finally show ?thesis .
qed

lemma context_words_ok:
  "comprehension (\<lambda>j. bind_err (py_index bl j) (\<lambda>b. Inr (text (snd b))))
     (py_range2 (max 0 (i - c)) (min (int (length bl)) (i + k + c))) =
   Inr (map text (spec_slice (max 0 (i - c)) (min (int (length bl)) (i + k + c)) (map snd bl)))"
proof -
  have "comprehension (\<lambda>j. bind_err (py_index bl j) (\<lambda>b. Inr (text (snd b))))
     (py_range2 (max 0 (i - c)) (min (int (length bl)) (i + k + c))) =
     Inr (map (\<lambda>b. text (snd b)) (spec_slice (max 0 (i - c)) (min (int (length bl)) (i + k + c)) bl))"
    by (intro index_comprehension) simp_all
  then show ?thesis by (simp add: spec_slice_map comp_def)
qed

lemma window_ends:
  assumes "1 \<le> k" "i + k \<le> length g"
  shows "hd (spec_window k i g) = g ! i" "last (spec_window k i g) = g ! (i + k - 1)"
proof -
  have ne: "spec_window k i g \<noteq> []" and len: "length (spec_window k i g) = k"
    using assms by (auto simp: spec_window_def)
  show "hd (spec_window k i g) = g ! i"
    using assms by (simp add: spec_window_def hd_drop_conv_nth)
  show "last (spec_window k i g) = g ! (i + k - 1)"
    using assms ne len by (simp add: last_conv_nth) (simp add: spec_window_def)
qed

lemma window_body_in_range:
  assumes k: "1 \<le> length ews" and r: "i + length ews \<le> length bl"
  shows "window_body c th e ews p bl results (int i) =
           Inr (results @
                (if spec_clears th e (length ews) (map snd bl) i
                 then [spec_result c e (length ews) p (map snd bl) i] else []))"
proof -
  let ?k = "length ews"
  let ?g = "map snd bl"
  have i: "i < length bl" and j: "i + ?k - 1 < length bl" using k r by simp_all
  have first: "py_index bl (int i) = Inr (bl ! i)" using i by (rule py_index_nat)
  have "int i + int ?k - 1 = int (i + ?k - 1)" using k by simp
  then have last: "py_index bl (int i + int ?k - 1) = Inr (bl ! (i + ?k - 1))"
    using j by (simp only: py_index_nat)
  have ends: "hd (spec_window ?k i ?g) = snd (bl ! i)"
             "last (spec_window ?k i ?g) = snd (bl ! (i + ?k - 1))"
    using window_ends[of ?k i ?g] k r i j by simp_all
  show ?thesis
    unfolding window_body_def Let_def window_words_ok[OF r] context_words_ok first last
    by (simp add: bind_err_def Let_def spec_clears_def spec_result_def spec_context_def
          spec_window_text_def ends)
qed

lemma for_loop_append:
  "(\<And>s x. x \<in> set xs \<Longrightarrow> body s x = Inr (s @ h x)) \<Longrightarrow>
     for_loop body s xs = Inr (s @ concat (map h xs))"
  by (induction xs arbitrary: s) (simp_all add: bind_err_def)

lemma concat_map_if:
  "concat (map (\<lambda>i. if P i then [f i] else []) xs) = map f (filter P xs)"
  by (induction xs) simp_all

lemma page_body_in_range:
  assumes k: "1 \<le> length ews"
  shows "page_body c th e ews results pg =
           Inr (results @ spec_page_results c th e (length ews) (fst pg) (map snd (snd pg)))"
proof -
  let ?k = "length ews"
  let ?bl = "snd pg"
  let ?h = "\<lambda>x. if spec_clears th e ?k (map snd ?bl) (nat x)
                 then [spec_result c e ?k (fst pg) (map snd ?bl) (nat x)] else []"
  have rng: "py_range (int (length ?bl) - int ?k + 1) = map int [0..<length ?bl + 1 - ?k]"
  proof -
    have "nat (int (length ?bl) - int ?k + 1) = length ?bl + 1 - ?k" by linarith
    then show ?thesis by (simp only: py_range_upt)
  qed
  have step: "window_body c th e ews (fst pg) ?bl s x = Inr (s @ ?h x)"
    if "x \<in> set (map int [0..<length ?bl + 1 - ?k])" for s x
  proof -
    from that obtain i where i: "x = int i" "i < length ?bl + 1 - ?k" by auto
    then have "i + ?k \<le> length ?bl" by simp
    from window_body_in_range[OF k this, of c th e "fst pg" s] i(1) show ?thesis by simp
  qed
  have "page_body c th e ews results pg =
          Inr (results @ concat (map ?h (map int [0..<length ?bl + 1 - ?k])))"
    unfolding page_body_def rng by (rule for_loop_append) (rule step)
  also have "concat (map ?h (map int [0..<length ?bl + 1 - ?k])) =
             spec_page_results c th e ?k (fst pg) (map snd ?bl)"
    by (simp add: spec_page_results_def comp_def concat_map_if)
  finally show ?thesis .
qed

lemma map_entry_distinct:
  "distinct qs \<Longrightarrow>
     AList.map_entry p f (map (\<lambda>q. (q, h q)) qs) =
     map (\<lambda>q. (q, if q = p then f (h q) else h q)) qs"
  by (induction qs) auto

lemma map_entry_absent:
  "p \<notin> set (map fst al) \<Longrightarrow> AList.map_entry p f al = al"
  by (induction al) auto

lemma map_entry_append_absent:
  "p \<notin> set (map fst al) \<Longrightarrow>
     AList.map_entry p f (al @ [(p, v)]) = al @ [(p, f v)]"
  by (induction al) auto

lemma filter_absent: "v \<notin> set (map f xs) \<Longrightarrow> filter (\<lambda>x. f x = v) xs = []"
  by (induction xs) auto

lemma update_absent:
  "p \<notin> set (map fst al) \<Longrightarrow> AList.update p v al = al @ [(p, v)]"
  by (induction al) auto

lemma map_of_groups_of:
  "map_of (groups_of its) p = None \<longleftrightarrow> p \<notin> set (map (\<lambda>it. page (snd it)) its)"
  by (simp add: groups_of_def map_of_eq_None_iff comp_def image_iff)

lemma group_step_groups_of: "group_step (groups_of its) it = groups_of (its @ [it])"
proof (cases "page (snd it) \<in> set (map (\<lambda>it. page (snd it)) its)")
  case True
  let ?qs = "rev (remdups (rev (map (\<lambda>it. page (snd it)) its)))"
  have d: "distinct ?qs" by simp
  have "group_step (groups_of its) it =
          AList.map_entry (page (snd it)) (\<lambda>l. l @ [it]) (groups_of its)"
    using True by (simp add: group_step_def Let_def map_of_groups_of)
  also have "\<dots> = map (\<lambda>q. (q, if q = page (snd it)
                                  then filter (\<lambda>it. page (snd it) = q) its @ [it]
                                  else filter (\<lambda>it. page (snd it) = q) its)) ?qs"
    unfolding groups_of_def by (rule map_entry_distinct[OF d])
  also have "\<dots> = groups_of (its @ [it])"
    using True by (auto simp: groups_of_def)
  finally show ?thesis .
next
  case False
  let ?p = "page (snd it)"
  have keys: "?p \<notin> set (map fst (groups_of its))"
    using False by (simp add: groups_of_def comp_def)
  have "group_step (groups_of its) it =
          AList.map_entry ?p (\<lambda>l. l @ [it]) (groups_of its @ [(?p, [])])"
    using False keys by (simp add: group_step_def Let_def map_of_groups_of update_absent)
  also have "\<dots> = groups_of its @ [(?p, [it])]"
    using keys by (simp add: map_entry_append_absent)
  also have "\<dots> = groups_of (its @ [it])"
  proof -
    have nf: "filter (\<lambda>x. page (snd x) = ?p) its = []"
      using False by (rule filter_absent)
    show ?thesis using False by (auto simp: groups_of_def nf)
  qed
  finally show ?thesis .
qed

lemma foldl_group_step: "foldl group_step [] its = groups_of its"
  by (induction its rule: rev_induct) (simp_all add: groups_of_def[of "[]"] group_step_groups_of)

lemma build_page_groups_eq:
  "build_page_groups tokens =
     map (\<lambda>p. (p, filter (\<lambda>it. page (snd it) = p) (enumerate 0 tokens))) (spec_pages tokens)"
proof -
  have "map (\<lambda>it. page (snd it)) (enumerate 0 tokens) = map page (map snd (enumerate 0 tokens))"
    by (simp only: map_map comp_def)
  then have "map (\<lambda>it. page (snd it)) (enumerate 0 tokens) = map page tokens"
    by simp
  then show ?thesis
    by (simp only: build_page_groups_def foldl_group_step groups_of_def spec_pages_def)
qed

lemma group_tokens:
  "map snd (filter (\<lambda>it. page (snd it) = p) (enumerate 0 tokens)) = spec_group p tokens"
proof -
  have "map snd (filter (\<lambda>it. page (snd it) = p) (enumerate 0 tokens)) =
        filter (\<lambda>t. page t = p) (map snd (enumerate 0 tokens))"
    by (simp only: filter_map comp_def)
  also have "map snd (enumerate 0 tokens) = tokens" by simp
  finally show ?thesis by (simp only: spec_group_def)
qed

lemma contextual_total:
  assumes "1 \<le> length (str_split (str_lower e))"
  shows "ContextualMatchingStrategy_match c th e tokens = Inr (spec_contextual c th e tokens)"
proof -
  let ?ews = "str_split (str_lower e)"
  let ?h = "\<lambda>pg. spec_page_results c th e (length ?ews) (fst pg) (map snd (snd pg))"
  have "ContextualMatchingStrategy_match c th e tokens =
          Inr ([] @ concat (map ?h (build_page_groups tokens)))"
    unfolding ContextualMatchingStrategy_match_def Let_def
    by (rule for_loop_append) (rule page_body_in_range[OF assms])
  also have "concat (map ?h (build_page_groups tokens)) = spec_contextual c th e tokens"
    by (simp add: build_page_groups_eq spec_contextual_def Let_def comp_def group_tokens)
  finally show ?thesis by simp
qed

lemma for_loop_Inr_member:
  "for_loop body s xs = Inr s' \<Longrightarrow> x \<in> set xs \<Longrightarrow> \<exists>s1 s2. body s1 x = Inr s2"
proof (induction xs arbitrary: s)
  case Nil
  then show ?case by simp
next
  case (Cons y ys)
  from Cons.prems(1) obtain s1 where s1: "body s y = Inr s1" "for_loop body s1 ys = Inr s'"
    by (auto simp: bind_err_def split: sum.splits)
  show ?case
  proof (cases "x = y")
    case True
    with s1(1) show ?thesis by blast
  next
    case False
    with Cons.prems(2) have "x \<in> set ys" by simp
    from Cons.IH[OF s1(2) this] show ?thesis .
  qed
qed

lemma for_loop_unchanged:
  "(\<And>s x s'. x \<in> set xs \<Longrightarrow> body s x = Inr s' \<Longrightarrow> s' = s) \<Longrightarrow>
     for_loop body s xs = Inr s' \<Longrightarrow> s' = s"
proof (induction xs arbitrary: s)
  case Nil
  then show ?case by simp
next
  case (Cons y ys)
  from Cons.prems(2) obtain s1 where s1: "body s y = Inr s1" "for_loop body s1 ys = Inr s'"
    by (auto simp: bind_err_def split: sum.splits)
  have "s1 = s" using Cons.prems(1)[of y s s1] s1(1) by simp
  moreover have "s' = s1"
  proof (rule Cons.IH[OF _ s1(2)])
    fix t x t' assume "x \<in> set ys" "body t x = Inr t'"
    then show "t' = t" using Cons.prems(1)[of x t t'] by simp
  qed
  ultimately show ?case by simp
qed

lemma py_range_0: "py_range 0 = []"
  by (simp add: py_range_def py_range2_def)

lemma window_body_no_words_below:
  assumes "\<not> th \<le> fuzz_ratio (str_lower e) []"
  shows "window_body c th e [] p bl results i = Inr results"
  using assms by (simp add: window_body_def py_range_0 bind_err_def)

lemma window_body_no_words_end:
  assumes "th \<le> fuzz_ratio (str_lower e) []"
  shows "window_body c th e [] p bl results (int (length bl)) = Inl IndexError"
proof -
  have idx: "py_index bl (int (length bl)) = Inl IndexError"
    by (simp add: py_index_def)
  show ?thesis
    unfolding window_body_def Let_def context_words_ok idx
    using assms by (simp add: py_range_0 bind_err_def)
qed

lemma page_body_no_words:
  assumes "page_body c th e [] results pg = Inr rs"
  shows "rs = results \<and> \<not> th \<le> fuzz_ratio (str_lower e) []"
proof -
  let ?n = "length (snd pg)"
  have loop: "for_loop (window_body c th e [] (fst pg) (snd pg)) results
                (py_range (int ?n + 1)) = Inr rs"
    using assms by (simp add: page_body_def)
  have below: "\<not> th \<le> fuzz_ratio (str_lower e) []"
  proof
    assume q: "th \<le> fuzz_ratio (str_lower e) []"
    have "int ?n \<in> set (py_range (int ?n + 1))"
      by (simp add: py_range_upt nat_add_distrib)
    from for_loop_Inr_member[OF loop this]
    obtain s1 s2 where "window_body c th e [] (fst pg) (snd pg) s1 (int ?n) = Inr s2"
      by blast
    with window_body_no_words_end[OF q] show False by simp
  qed
  have "rs = results"
    using loop by (rule for_loop_unchanged[rotated]) (simp add: window_body_no_words_below[OF below])
  with below show ?thesis by simp
qed

lemma spec_pages_nonempty: "tokens \<noteq> [] \<Longrightarrow> spec_pages tokens \<noteq> []"
proof
  assume ne: "tokens \<noteq> []" and "spec_pages tokens = []"
  then have "set (spec_pages tokens) = {}" by simp
  then have "set (map page tokens) = {}" by (simp add: spec_pages_def)
  with ne show False by simp
qed

lemma contextual_no_words:
  assumes k: "str_split (str_lower e) = []"
    and m: "ContextualMatchingStrategy_match c th e tokens = Inr rs"
  shows "rs = [] \<and> (tokens = [] \<or> \<not> th \<le> fuzz_ratio (str_lower e) [])"
proof -
  have loop: "for_loop (page_body c th e []) [] (build_page_groups tokens) = Inr rs"
    using m k by (simp add: ContextualMatchingStrategy_match_def)
  have "rs = []"
    using loop by (rule for_loop_unchanged[rotated]) (simp add: page_body_no_words)
  moreover have "\<not> th \<le> fuzz_ratio (str_lower e) []" if "tokens \<noteq> []"
  proof -
    from that have "build_page_groups tokens \<noteq> []"
      by (simp add: build_page_groups_eq spec_pages_nonempty)
    then obtain pg where "pg \<in> set (build_page_groups tokens)"
      by (cases "build_page_groups tokens") auto
    from for_loop_Inr_member[OF loop this]
    obtain s1 s2 where "page_body c th e [] s1 pg = Inr s2" by blast
    from page_body_no_words[OF this] show ?thesis by simp
  qed
  ultimately show ?thesis by blast
qed

lemma spec_contextual_no_words:
  assumes k: "str_split (str_lower e) = []"
    and q: "tokens = [] \<or> \<not> th \<le> fuzz_ratio (str_lower e) []"
  shows "spec_contextual c th e tokens = []"
  using q
proof
  assume "tokens = []"
  then show ?thesis by (simp add: spec_contextual_def spec_pages_def)
next
  assume "\<not> th \<le> fuzz_ratio (str_lower e) []"
  then have "spec_clears th e 0 g i = False" for g i
    by (simp add: spec_clears_def spec_window_def spec_window_text_def)
  then show ?thesis
    by (simp add: spec_contextual_def k spec_page_results_def)
qed

lemma contextual_refines:
  assumes "ContextualMatchingStrategy_match c th e tokens = Inr rs"
  shows "rs = spec_contextual c th e tokens"
proof (cases "str_split (str_lower e) = []")
  case True
  from contextual_no_words[OF True assms] spec_contextual_no_words[OF True]
  show ?thesis by simp
next
  case False
  then have "1 \<le> length (str_split (str_lower e))"
    by (cases "str_split (str_lower e)") simp_all
  from contextual_total[OF this, of c th tokens] assms show ?thesis by simp
qed

lemma spec_contextual_member:
  assumes "r \<in> set (spec_contextual c th e tokens)"
  shows "\<exists>p i. p \<in> set (spec_pages tokens) \<and>
           i + length (str_split (str_lower e)) \<le> length (spec_group p tokens) \<and>
           spec_clears th e (length (str_split (str_lower e))) (spec_group p tokens) i \<and>
           r = spec_result c e (length (str_split (str_lower e))) p (spec_group p tokens) i"
proof -
  let ?k = "length (str_split (str_lower e))"
  from assms obtain p i where
    "p \<in> set (spec_pages tokens)" "i < length (spec_group p tokens) + 1 - ?k"
    "spec_clears th e ?k (spec_group p tokens) i"
    "r = spec_result c e ?k p (spec_group p tokens) i"
    by (auto simp: spec_contextual_def Let_def spec_page_results_def)
  moreover from this(2) have "i + ?k \<le> length (spec_group p tokens)" by simp
  ultimately show ?thesis by blast
qed

lemma ex_k: "str_split (str_lower ''a b'') = [''a'', ''b'']"
  by (simp add: lower_eval str_split_def isspace_def)

lemma ex_spec: "spec_contextual 1 70 ''a b'' [tok_A, tok_x, tok_b] = 
   [\<lparr>text_bound = \<lparr>text = ''a b'', x0 = 1, y0 = 2, x1 = 11, y1 = 12, page = 0\<rparr>,
     confidence = 100, context = Some ''A b''\<rparr>]"
  by (simp add: spec_contextual_def ex_k spec_pages_def spec_group_def tok_A_def tok_x_def tok_b_def
      spec_page_results_def spec_clears_def spec_window_def spec_window_text_def
      spec_result_def spec_context_def spec_slice_def fuzz_ratio_def indel_distance_def lower_eval
      str_split_def isspace_def)

lemmas ex_toks = tok_A_def tok_x_def tok_b_def

lemma contextual_example:
  "ContextualMatchingStrategy_match 1 70 ''a b'' [tok_A, tok_x, tok_b] =
     Inr [\<lparr>text_bound = \<lparr>text = ''a b'', x0 = 1, y0 = 2, x1 = 11, y1 = 12, page = 0\<rparr>,
           confidence = 100, context = Some ''A b''\<rparr>]"
  using contextual_total[of "''a b''" 1 70 "[tok_A, tok_x, tok_b]"] by (simp add: ex_k ex_spec)

text \<open>C1: for the empty entity the word list is empty, and on a one-token document
  with the default configuration \<open>ContextualMatchingStrategy.match\<close> does not return the
  empty sequence: every window has the empty text, which scores 100 against the empty
  entity, and the window that starts at index \<open>len(bounds_list)\<close> reads
  \<open>bounds_list[len(bounds_list)]\<close>, which raises \<open>IndexError\<close>.\<close>

theorem contextual_empty_entity_raises:
  "str_split (str_lower '''') = [] \<and>
   ContextualMatchingStrategy_match 3 70 '''' [tok_A] = Inl IndexError"
  by (simp add: ContextualMatchingStrategy_match_def str_split_def str_lower_def
      build_page_groups_def group_step_def tok_A_def page_body_def py_range_def py_range2_def
      upto.simps window_body_def bind_err_def fuzz_ratio_def indel_distance_def py_index_def)

text \<open>C3: every result of the exact strategy, of the fuzzy strategy with any threshold
  and of the contextual strategy with any configuration has a confidence between 0 and
  100, and a confidence of exactly 100 only when the matched text (the token's text,
  or the window text for the contextual strategy) equals the entity up to letter
  case.\<close>

theorem confidence_range:
  "(\<forall>r \<in> set (ExactMatchingStrategy_match e tokens).
      0 \<le> confidence r \<and> confidence r \<le> 100 \<and>
      (confidence r = 100 \<longrightarrow> str_lower (text (text_bound r)) = str_lower e)) \<and>
   (\<forall>r \<in> set (FuzzyMatchingStrategy_match th e tokens).
      0 \<le> confidence r \<and> confidence r \<le> 100 \<and>
      (confidence r = 100 \<longrightarrow> str_lower (text (text_bound r)) = str_lower e)) \<and>
   (\<forall>rs. ContextualMatchingStrategy_match c th e tokens = Inr rs \<longrightarrow>
      (\<forall>r \<in> set rs.
         0 \<le> confidence r \<and> confidence r \<le> 100 \<and>
         (confidence r = 100 \<longrightarrow> str_lower (text (text_bound r)) = str_lower e)))"
proof -
  have ex: "\<forall>r \<in> set (ExactMatchingStrategy_match e tokens).
      0 \<le> confidence r \<and> confidence r \<le> 100 \<and>
      (confidence r = 100 \<longrightarrow> str_lower (text (text_bound r)) = str_lower e)"
    by (auto simp: exact_match_eq)
  have fz: "\<forall>r \<in> set (FuzzyMatchingStrategy_match th e tokens).
      0 \<le> confidence r \<and> confidence r \<le> 100 \<and>
      (confidence r = 100 \<longrightarrow> str_lower (text (text_bound r)) = str_lower e)"
    by (auto simp: fuzzy_match_eq fuzz_ratio_ge_0 fuzz_ratio_le_100 fuzz_ratio_100_iff)
  have cx: "0 \<le> confidence r \<and> confidence r \<le> 100 \<and>
         (confidence r = 100 \<longrightarrow> str_lower (text (text_bound r)) = str_lower e)"
    if m: "ContextualMatchingStrategy_match c th e tokens = Inr rs" and r: "r \<in> set rs"
    for rs r
  proof -
    from contextual_refines[OF m] r have "r \<in> set (spec_contextual c th e tokens)" by simp
    from spec_contextual_member[OF this] obtain p i where
      "r = spec_result c e (length (str_split (str_lower e))) p (spec_group p tokens) i"
      by blast
    then obtain w where w: "confidence r = fuzz_ratio (str_lower e) w" "text (text_bound r) = w"
      by (simp add: spec_result_def Let_def)
    have "confidence r = 100 \<longrightarrow> str_lower (text (text_bound r)) = str_lower e"
      using w str_lower_idem[of e] by (auto simp: fuzz_ratio_100_iff)
    then show ?thesis using w(1) by (simp add: fuzz_ratio_ge_0 fuzz_ratio_le_100)
  qed
  from ex fz cx show ?thesis by blast
qed

theorem confidence_range_witness:
  "\<exists>r. ContextualMatchingStrategy_match 1 70 ''a b'' [tok_A, tok_x, tok_b] = Inr [r] \<and>
        confidence r = 100 \<and> str_lower (text (text_bound r)) = str_lower ''a b''"
proof -
  let ?r = "\<lparr>text_bound = \<lparr>text = ''a b'', x0 = 1, y0 = 2, x1 = 11, y1 = 12, page = 0\<rparr>,
             confidence = 100, context = Some ''A b''\<rparr>"
  from confidence_range[of "''a b''" "[tok_A, tok_x, tok_b]" 70 1] contextual_example
  have "confidence ?r = 100 \<longrightarrow> str_lower (text (text_bound ?r)) = str_lower ''a b''"
    by simp
  then have "str_lower (text (text_bound ?r)) = str_lower ''a b''" by simp
  with contextual_example show ?thesis by simp
qed

text \<open>C5: for an entity of \<open>k \<ge> 1\<close> words the contextual strategy returns, and every
  result carries a TextBound built from a window of \<open>k\<close> tokens of one page group, all
  on that page: \<open>x0, y0\<close> of the first window token, \<open>x1, y1\<close> of the last, the group's
  page, and as text the lowercased texts of the window tokens joined by single
  spaces.\<close>

theorem contextual_merged_bound:
  assumes "k = length (str_split (str_lower e))" and "1 \<le> k"
  shows "\<exists>rs. ContextualMatchingStrategy_match c th e tokens = Inr rs \<and>
     (\<forall>r \<in> set rs. \<exists>p i.
        i + k \<le> length (spec_group p tokens) \<and>
        length (spec_window k i (spec_group p tokens)) = k \<and>
        (\<forall>w \<in> set (spec_window k i (spec_group p tokens)). page w = p) \<and>
        text_bound r =
          \<lparr>text = str_join '' '' (map (\<lambda>t. str_lower (text t))
                                     (spec_window k i (spec_group p tokens))),
           x0 = x0 (hd (spec_window k i (spec_group p tokens))),
           y0 = y0 (hd (spec_window k i (spec_group p tokens))),
           x1 = x1 (last (spec_window k i (spec_group p tokens))),
           y1 = y1 (last (spec_window k i (spec_group p tokens))),
           page = p\<rparr>)"
proof -
  have tot: "ContextualMatchingStrategy_match c th e tokens = Inr (spec_contextual c th e tokens)"
    using assms by (simp add: contextual_total)
  have "\<exists>p i.
        i + k \<le> length (spec_group p tokens) \<and>
        length (spec_window k i (spec_group p tokens)) = k \<and>
        (\<forall>w \<in> set (spec_window k i (spec_group p tokens)). page w = p) \<and>
        text_bound r =
          \<lparr>text = str_join '' '' (map (\<lambda>t. str_lower (text t))
                                     (spec_window k i (spec_group p tokens))),
           x0 = x0 (hd (spec_window k i (spec_group p tokens))),
           y0 = y0 (hd (spec_window k i (spec_group p tokens))),
           x1 = x1 (last (spec_window k i (spec_group p tokens))),
           y1 = y1 (last (spec_window k i (spec_group p tokens))),
           page = p\<rparr>"
    if "r \<in> set (spec_contextual c th e tokens)" for r
  proof -
    from spec_contextual_member[OF that] assms(1) obtain p i where
      pi: "i + k \<le> length (spec_group p tokens)"
          "r = spec_result c e k p (spec_group p tokens) i"
      by blast
    have len: "length (spec_window k i (spec_group p tokens)) = k"
      using pi(1) by (simp add: spec_window_def)
    have "set (spec_window k i (spec_group p tokens)) \<subseteq> set (spec_group p tokens)"
      unfolding spec_window_def
      using set_take_subset set_drop_subset by (rule subset_trans)
    then have pg: "\<forall>w \<in> set (spec_window k i (spec_group p tokens)). page w = p"
      by (auto simp: spec_group_def)
    have bound: "text_bound r =
          \<lparr>text = str_join '' '' (map (\<lambda>t. str_lower (text t))
                                     (spec_window k i (spec_group p tokens))),
           x0 = x0 (hd (spec_window k i (spec_group p tokens))),
           y0 = y0 (hd (spec_window k i (spec_group p tokens))),
           x1 = x1 (last (spec_window k i (spec_group p tokens))),
           y1 = y1 (last (spec_window k i (spec_group p tokens))),
           page = p\<rparr>"
      by (simp add: pi(2) spec_result_def Let_def spec_window_text_def)
    from pi(1) len pg bound show ?thesis by blast
  qed
  with tot show ?thesis by blast
qed

text \<open>C6: whenever the contextual strategy returns, its result list is the list of
  the results emitted for the window start indices that clear the threshold, and the
  result emitted at start index \<open>i\<close> of a page group of length \<open>n\<close>, for \<open>k\<close> entity
  words and context window \<open>c\<close>, has as context the original-case text, joined by
  single spaces, of the group's tokens at the indices \<open>max(0, i - c)\<close> up to
  \<open>min(n, i + k + c)\<close> exclusive; for \<open>k \<ge> 1\<close> the strategy does return.\<close>

theorem contextual_context:
  assumes "k = length (str_split (str_lower e))"
  shows "(1 \<le> k \<longrightarrow> (\<exists>rs. ContextualMatchingStrategy_match c th e tokens = Inr rs)) \<and>
         (\<forall>rs. ContextualMatchingStrategy_match c th e tokens = Inr rs \<longrightarrow>
            rs = concat (map (\<lambda>p. map (spec_result c e k p (spec_group p tokens))
                                      (filter (spec_clears th e k (spec_group p tokens))
                                              [0..<length (spec_group p tokens) + 1 - k]))
                             (spec_pages tokens)) \<and>
            (\<forall>r \<in> set rs. \<exists>p i.
               i + k \<le> length (spec_group p tokens) \<and>
               spec_clears th e k (spec_group p tokens) i \<and>
               r = spec_result c e k p (spec_group p tokens) i \<and>
               context r =
                 Some (str_join '' ''
                   (map text
                     (spec_slice (max 0 (int i - c))
                        (min (int (length (spec_group p tokens))) (int i + int k + c))
                        (spec_group p tokens))))))"
proof -
  have tot: "1 \<le> k \<Longrightarrow> \<exists>rs. ContextualMatchingStrategy_match c th e tokens = Inr rs"
    using assms contextual_total[of e c th tokens] by simp
  have eq: "rs = concat (map (\<lambda>p. map (spec_result c e k p (spec_group p tokens))
                                      (filter (spec_clears th e k (spec_group p tokens))
                                              [0..<length (spec_group p tokens) + 1 - k]))
                             (spec_pages tokens))"
    if "ContextualMatchingStrategy_match c th e tokens = Inr rs" for rs
    using contextual_refines[OF that] assms
    by (simp add: spec_contextual_def Let_def spec_page_results_def)
  have mem: "\<exists>p i.
               i + k \<le> length (spec_group p tokens) \<and>
               spec_clears th e k (spec_group p tokens) i \<and>
               r = spec_result c e k p (spec_group p tokens) i \<and>
               context r =
                 Some (str_join '' ''
                   (map text
                     (spec_slice (max 0 (int i - c))
                        (min (int (length (spec_group p tokens))) (int i + int k + c))
                        (spec_group p tokens))))"
    if m: "ContextualMatchingStrategy_match c th e tokens = Inr rs" and r: "r \<in> set rs"
    for rs r
  proof -
    from contextual_refines[OF m] r have "r \<in> set (spec_contextual c th e tokens)" by simp
    from spec_contextual_member[OF this] assms obtain p i where
      pi: "i + k \<le> length (spec_group p tokens)"
          "spec_clears th e k (spec_group p tokens) i"
          "r = spec_result c e k p (spec_group p tokens) i"
      by blast
    from pi(3) have "context r =
                 Some (str_join '' ''
                   (map text
                     (spec_slice (max 0 (int i - c))
                        (min (int (length (spec_group p tokens))) (int i + int k + c))
                        (spec_group p tokens))))"
      by (simp add: spec_result_def Let_def spec_context_def)
    with pi show ?thesis by blast
  qed
  from tot eq mem show ?thesis by blast
qed

text \<open>C7: for an entity of \<open>k \<ge> 1\<close> words the result of the contextual strategy is,
  page by page in order of first appearance, one result for every start index
  \<open>i \<le> n - k\<close> of the page group whose window clears the threshold, in ascending
  order of \<open>i\<close> and with nothing removed; each window is a run of exactly \<open>k\<close>
  consecutive tokens of a group that holds tokens of one page only; and a group with
  fewer than \<open>k\<close> tokens contributes nothing.\<close>

theorem contextual_windows:
  assumes "k = length (str_split (str_lower e))" and "1 \<le> k"
  shows "ContextualMatchingStrategy_match c th e tokens =
           Inr (concat (map (\<lambda>p. map (spec_result c e k p (spec_group p tokens))
                                     (filter (spec_clears th e k (spec_group p tokens))
                                             [0..<length (spec_group p tokens) + 1 - k]))
                            (spec_pages tokens))) \<and>
         (\<forall>p i. i < length (spec_group p tokens) + 1 - k \<longrightarrow>
                length (spec_window k i (spec_group p tokens)) = k \<and>
                sublist (spec_window k i (spec_group p tokens)) (spec_group p tokens) \<and>
                (\<forall>w \<in> set (spec_group p tokens). page w = p)) \<and>
         (\<forall>p. length (spec_group p tokens) < k \<longrightarrow>
                filter (spec_clears th e k (spec_group p tokens))
                       [0..<length (spec_group p tokens) + 1 - k] = [])"
proof -
  have a: "ContextualMatchingStrategy_match c th e tokens =
           Inr (concat (map (\<lambda>p. map (spec_result c e k p (spec_group p tokens))
                                     (filter (spec_clears th e k (spec_group p tokens))
                                             [0..<length (spec_group p tokens) + 1 - k]))
                            (spec_pages tokens)))"
    using assms contextual_total[of e c th tokens]
    by (simp add: spec_contextual_def Let_def spec_page_results_def)
  have b: "length (spec_window k i g) = k \<and> sublist (spec_window k i g) g"
    if "i < length g + 1 - k" for i and g :: "TextBound list"
  proof -
    have "g = take i g @ spec_window k i g @ drop (i + k) g"
      by (simp add: spec_window_def) (metis add.commute append_take_drop_id drop_drop)
    then have "sublist (spec_window k i g) g" unfolding sublist_def by blast
    moreover have "length (spec_window k i g) = k"
      using that by (simp add: spec_window_def)
    ultimately show ?thesis by simp
  qed
  have c: "\<forall>w \<in> set (spec_group p tokens). page w = p" for p
    by (simp add: spec_group_def)
  have d: "length (spec_group p tokens) < k \<Longrightarrow>
           filter (spec_clears th e k (spec_group p tokens))
                  [0..<length (spec_group p tokens) + 1 - k] = []" for p
    by simp
  from a b c d show ?thesis by blast
qed

theorem contextual_merged_bound_witness:
  "ContextualMatchingStrategy_match 1 70 ''a b'' [tok_A, tok_x, tok_b] =
     Inr [\<lparr>text_bound = \<lparr>text = ''a b'', x0 = 1, y0 = 2, x1 = 11, y1 = 12, page = 0\<rparr>,
           confidence = 100, context = Some ''A b''\<rparr>] \<and>
   (\<exists>p i. i + 2 \<le> length (spec_group p [tok_A, tok_x, tok_b]) \<and>
      length (spec_window 2 i (spec_group p [tok_A, tok_x, tok_b])) = 2 \<and>
      \<lparr>text = ''a b'', x0 = 1, y0 = 2, x1 = 11, y1 = 12, page = 0\<rparr> =
        \<lparr>text = str_join '' '' (map (\<lambda>t. str_lower (text t))
                                   (spec_window 2 i (spec_group p [tok_A, tok_x, tok_b]))),
         x0 = x0 (hd (spec_window 2 i (spec_group p [tok_A, tok_x, tok_b]))),
         y0 = y0 (hd (spec_window 2 i (spec_group p [tok_A, tok_x, tok_b]))),
         x1 = x1 (last (spec_window 2 i (spec_group p [tok_A, tok_x, tok_b]))),
         y1 = y1 (last (spec_window 2 i (spec_group p [tok_A, tok_x, tok_b]))),
         page = p\<rparr>)"
proof -
  have k: "2 = length (str_split (str_lower ''a b''))" by (simp add: ex_k)
  from contextual_merged_bound[OF k, of 1 70 "[tok_A, tok_x, tok_b]"]
  show ?thesis unfolding contextual_example by auto
qed

lemma doc_abcab_spec:
  "concat (map (\<lambda>p. map (spec_result 1 ''a b'' 2 p (spec_group p doc_abcab))
                         (filter (spec_clears 70 ''a b'' 2 (spec_group p doc_abcab))
                                 [0..<length (spec_group p doc_abcab) + 1 - 2]))
               (spec_pages doc_abcab)) =
   [\<lparr>text_bound = \<lparr>text = ''a b'', x0 = 0, y0 = 0, x1 = 3, y1 = 1, page = 0\<rparr>,
     confidence = 100, context = Some ''a b c''\<rparr>,
    \<lparr>text_bound = \<lparr>text = ''a b'', x0 = 6, y0 = 0, x1 = 9, y1 = 1, page = 0\<rparr>,
     confidence = 100, context = Some ''c a b''\<rparr>]"
  by (simp add: doc_abcab_def tok_def spec_pages_def spec_group_def
      spec_clears_def spec_window_def spec_window_text_def
      spec_result_def spec_context_def spec_slice_def fuzz_ratio_def indel_distance_def lower_eval
      upt_rec[of 0] upt_rec[of 1] upt_rec[of 2] upt_rec[of 3] upt_rec[of 4])

theorem contextual_context_witness:
  "ContextualMatchingStrategy_match 1 70 ''a b'' doc_abcab =
     Inr [\<lparr>text_bound = \<lparr>text = ''a b'', x0 = 0, y0 = 0, x1 = 3, y1 = 1, page = 0\<rparr>,
           confidence = 100, context = Some ''a b c''\<rparr>,
          \<lparr>text_bound = \<lparr>text = ''a b'', x0 = 6, y0 = 0, x1 = 9, y1 = 1, page = 0\<rparr>,
           confidence = 100, context = Some ''c a b''\<rparr>]"
proof -
  have k: "2 = length (str_split (str_lower ''a b''))" by (simp add: ex_k)
  note w = contextual_context[OF k, of 1 70 doc_abcab]
  from w obtain rs where m: "ContextualMatchingStrategy_match 1 70 ''a b'' doc_abcab = Inr rs"
    by auto
  with w have "rs = concat (map (\<lambda>p. map (spec_result 1 ''a b'' 2 p (spec_group p doc_abcab))
                         (filter (spec_clears 70 ''a b'' 2 (spec_group p doc_abcab))
                                 [0..<length (spec_group p doc_abcab) + 1 - 2]))
               (spec_pages doc_abcab))"
    by blast
  with m show ?thesis by (simp only: doc_abcab_spec)
qed

theorem contextual_windows_witness:
  "ContextualMatchingStrategy_match 1 70 ''a b'' [tok_A, tok_x, tok_b] =
     Inr [\<lparr>text_bound = \<lparr>text = ''a b'', x0 = 1, y0 = 2, x1 = 11, y1 = 12, page = 0\<rparr>,
           confidence = 100, context = Some ''A b''\<rparr>] \<and>
   length (spec_group 1 [tok_A, tok_x, tok_b]) < 2 \<and>
   filter (spec_clears 70 ''a b'' 2 (spec_group 1 [tok_A, tok_x, tok_b]))
          [0..<length (spec_group 1 [tok_A, tok_x, tok_b]) + 1 - 2] = []"
proof -
  have k: "2 = length (str_split (str_lower ''a b''))" by (simp add: ex_k)
  have one: "1 \<le> (2::nat)" by simp
  note w = contextual_windows[OF k one, of 1 70 "[tok_A, tok_x, tok_b]"]
  have short: "length (spec_group 1 [tok_A, tok_x, tok_b]) < 2"
    by (simp add: spec_group_def ex_toks)
  from w have "ContextualMatchingStrategy_match 1 70 ''a b'' [tok_A, tok_x, tok_b] =
           Inr (concat (map (\<lambda>p. map (spec_result 1 ''a b'' 2 p (spec_group p [tok_A, tok_x, tok_b]))
                                     (filter (spec_clears 70 ''a b'' 2 (spec_group p [tok_A, tok_x, tok_b]))
                                             [0..<length (spec_group p [tok_A, tok_x, tok_b]) + 1 - 2]))
                            (spec_pages [tok_A, tok_x, tok_b])))"
    by blast
  also have "\<dots> = Inr (spec_contextual 1 70 ''a b'' [tok_A, tok_x, tok_b])"
    by (simp only: spec_contextual_def Let_def spec_page_results_def k[symmetric])
  finally have m: "ContextualMatchingStrategy_match 1 70 ''a b'' [tok_A, tok_x, tok_b] =
     Inr [\<lparr>text_bound = \<lparr>text = ''a b'', x0 = 1, y0 = 2, x1 = 11, y1 = 12, page = 0\<rparr>,
           confidence = 100, context = Some ''A b''\<rparr>]"
    by (simp only: ex_spec)
  from w short have "filter (spec_clears 70 ''a b'' 2 (spec_group 1 [tok_A, tok_x, tok_b]))
          [0..<length (spec_group 1 [tok_A, tok_x, tok_b]) + 1 - 2] = []"
    by blast
  with m short show ?thesis by blast
qed

end
